theory Spec2Isabelle
  imports Main "HOL-Library.Multiset" "HOL-Library.Sublist"
begin

section \<open>Data model (types.ts)\<close>

text \<open>
  \<^verbatim>\<open>SavedTab\<close> is an interface with the fields \<^verbatim>\<open>id\<close>, \<^verbatim>\<open>url\<close>, \<^verbatim>\<open>title\<close>,
  \<^verbatim>\<open>favIconUrl?\<close> and \<^verbatim>\<open>savedAt\<close>. The argument of \<^verbatim>\<open>saveTabs\<close> has the type
  \<^verbatim>\<open>Omit<SavedTab, "id" | "savedAt">\<close>: that is the record \<open>TabData\<close>, and
  \<open>SavedTab\<close> extends it by the two fields the save adds. The field \<^verbatim>\<open>id\<close> is
  written \<open>id'\<close>, since \<open>id\<close> is the identity function of HOL. \<^verbatim>\<open>savedAt\<close> holds
  a value of \<^verbatim>\<open>Date.now()\<close>, an integer number of milliseconds.
\<close>

record TabData =
  url :: string
  title :: string
  favIconUrl :: "string option"

record SavedTab = TabData +
  id' :: string
  savedAt :: int

text \<open>
  \<^verbatim>\<open>chrome.storage.local\<close> is a map from keys to values; the two keys of this
  program hold arrays of \<^verbatim>\<open>SavedTab\<close>. A key that was never written (or was removed)
  is absent. A value read from the storage is a fresh copy, so sorting it in place
  does not change what is stored.
\<close>

type_synonym storage = "string \<rightharpoonup> SavedTab list"

text \<open>What an \<^verbatim>\<open>async\<close> function's promise resolves to.\<close>

datatype jsval = Undefined | Number int

definition STORAGE_KEY :: string where
  "STORAGE_KEY = ''savedTabs''"

definition BACKUP_STORAGE_KEY :: string where
  "BACKUP_STORAGE_KEY = ''savedTabs_backup''"

section \<open>Library functions of the language\<close>

text \<open>
  \<^verbatim>\<open>Array.prototype.sort(cmp)\<close>: a stable sort (ECMAScript 2019 and later; V8 since
  version 7.0), written as an insertion sort. An element goes in front of the first
  element it does not have to follow (\<open>cmp x y \<le> 0\<close>), so elements the comparator
  calls equal keep their order.
\<close>

fun insert_by :: "('a \<Rightarrow> 'a \<Rightarrow> int) \<Rightarrow> 'a \<Rightarrow> 'a list \<Rightarrow> 'a list" where
  "insert_by cmp x [] = [x]"
| "insert_by cmp x (y # ys) =
     (if cmp x y \<le> 0 then x # y # ys else y # insert_by cmp x ys)"

definition sort_by :: "('a \<Rightarrow> 'a \<Rightarrow> int) \<Rightarrow> 'a list \<Rightarrow> 'a list" where
  "sort_by cmp xs = foldr (insert_by cmp) xs []"

text \<open>
  The decimal digits of a number, as a template literal \<^verbatim>\<open>`${n}`\<close> prints an
  integer.
\<close>

definition digit_char :: "nat \<Rightarrow> char" where
  "digit_char n = char_of (of_char CHR ''0'' + n)"

fun show_nat :: "nat \<Rightarrow> string" where
  "show_nat n =
     (if n < 10 then [digit_char n] else show_nat (n div 10) @ [digit_char (n mod 10)])"

declare show_nat.simps [simp del]

definition show_int :: "int \<Rightarrow> string" where
  "show_int i = (if i < 0 then CHR ''-'' # show_nat (nat (- i)) else show_nat (nat i))"

section \<open>storage.ts\<close>

text \<open>
  \<^verbatim>\<open>
  export const getSavedTabs = async (): Promise<SavedTab[]> => {
    const result = await chrome.storage.local.get(STORAGE_KEY)
    const tabs: SavedTab[] = result[STORAGE_KEY] || []
    tabs.sort((a, b) => b.savedAt - a.savedAt)
    return tabs
  }
  \<close>
\<close>

definition getSavedTabs :: "storage \<Rightarrow> SavedTab list" where
  "getSavedTabs st =
     (let tabs = (case st STORAGE_KEY of None \<Rightarrow> [] | Some v \<Rightarrow> v)
      in sort_by (\<lambda>a b. savedAt b - savedAt a) tabs)"

text \<open>
  \<^verbatim>\<open>
  const now = Date.now()
  const newTabs: SavedTab[] = tabsToSave.map((tab, index) => ({
    ...tab,
    id: `${now}-${index}-${Math.random().toString(36).substring(2, 9)}`,
    savedAt: now
  }))
  \<close>
  The clock and the random generator are inputs: \<open>now\<close> is the value of
  \<^verbatim>\<open>Date.now()\<close>, and \<open>rnd index\<close> is the suffix drawn by the call of
  \<^verbatim>\<open>Math.random()\<close> for the element at \<open>index\<close>.
\<close>

definition newTabs :: "int \<Rightarrow> (nat \<Rightarrow> string) \<Rightarrow> TabData list \<Rightarrow> SavedTab list" where
  "newTabs now rnd tabsToSave =
     map (\<lambda>(index, tab).
            \<lparr> url = url tab, title = title tab, favIconUrl = favIconUrl tab,
              id' = show_int now @ ''-'' @ show_nat index @ ''-'' @ rnd index,
              savedAt = now \<rparr>)
         (enumerate 0 tabsToSave)"

text \<open>
  \<^verbatim>\<open>
  const uniqueNewTabs = newTabs.filter(
    (newTab) =>
      !existingTabs.some((existingTab) => existingTab.url === newTab.url)
  )
  \<close>
\<close>

definition uniqueNewTabs :: "SavedTab list \<Rightarrow> SavedTab list \<Rightarrow> SavedTab list" where
  "uniqueNewTabs existingTabs new =
     filter (\<lambda>newTab. \<not> list_ex (\<lambda>existingTab. url existingTab = url newTab) existingTabs)
       new"

text \<open>
  \<^verbatim>\<open>
  export const saveTabs = async (tabsToSave): Promise<void> => {
    const existingTabs = await getSavedTabs()
    const now = Date.now()
    const newTabs = ...
    const uniqueNewTabs = ...
    const updatedTabs = [...uniqueNewTabs, ...existingTabs]
    await chrome.storage.local.set({ [STORAGE_KEY]: updatedTabs })
    console.log(`Saved ${uniqueNewTabs.length} new tabs.`)
  }
  \<close>
  The function has no \<^verbatim>\<open>return\<close>: its promise resolves to \<^verbatim>\<open>undefined\<close>. The
  model returns that value and the storage after the call; the line the call prints
  is \<open>saveTabs_log\<close>.
\<close>

definition saveTabs ::
  "int \<Rightarrow> (nat \<Rightarrow> string) \<Rightarrow> TabData list \<Rightarrow> storage \<Rightarrow> jsval \<times> storage" where
  "saveTabs now rnd tabsToSave st =
     (let existingTabs = getSavedTabs st;
          unique = uniqueNewTabs existingTabs (newTabs now rnd tabsToSave);
          updatedTabs = unique @ existingTabs
      in (Undefined, st(STORAGE_KEY \<mapsto> updatedTabs)))"

definition saveTabs_log :: "int \<Rightarrow> (nat \<Rightarrow> string) \<Rightarrow> TabData list \<Rightarrow> storage \<Rightarrow> string" where
  "saveTabs_log now rnd tabsToSave st =
     (let existingTabs = getSavedTabs st;
          unique = uniqueNewTabs existingTabs (newTabs now rnd tabsToSave)
      in ''Saved '' @ show_nat (length unique) @ '' new tabs.'')"

text \<open>
  \<^verbatim>\<open>
  export const deleteTab = async (tabId: string): Promise<void> => {
    const existingTabs = await getSavedTabs()
    const updatedTabs = existingTabs.filter((tab) => tab.id !== tabId)
    await chrome.storage.local.set({ [STORAGE_KEY]: updatedTabs })
    console.log(`Deleted tab with ID: ${tabId}`)
  }
  \<close>
\<close>

definition deleteTab :: "string \<Rightarrow> storage \<Rightarrow> jsval \<times> storage" where
  "deleteTab tabId st =
     (let existingTabs = getSavedTabs st;
          updatedTabs = filter (\<lambda>tab. id' tab \<noteq> tabId) existingTabs
      in (Undefined, st(STORAGE_KEY \<mapsto> updatedTabs)))"

text \<open>
  \<^verbatim>\<open>
  export const clearAllTabs = async (): Promise<void> => {
    await chrome.storage.local.remove(STORAGE_KEY)
  }
  \<close>
\<close>

definition clearAllTabs :: "storage \<Rightarrow> jsval \<times> storage" where
  "clearAllTabs st = (Undefined, st(STORAGE_KEY := None))"

section \<open>background.ts\<close>

text \<open>
  The background script has its own copy of the read path,
  \<^verbatim>\<open>getSavedTabsForBackground\<close>, and
  \<^verbatim>\<open>
  const performBackup = async () => {
    try {
      const tabs = await getSavedTabsForBackground()
      if (tabs.length > 0) {
        await chrome.storage.local.set({ [BACKUP_STORAGE_KEY]: tabs })
      } else { console.log(... No tabs to backup.) }
    } catch (error) { console.error(...) }
  }
  \<close>
\<close>

definition getSavedTabsForBackground :: "storage \<Rightarrow> SavedTab list" where
  "getSavedTabsForBackground st =
     (let tabs = (case st STORAGE_KEY of None \<Rightarrow> [] | Some v \<Rightarrow> v)
      in sort_by (\<lambda>a b. savedAt b - savedAt a) tabs)"

definition performBackup :: "storage \<Rightarrow> jsval \<times> storage" where
  "performBackup st =
     (let tabs = getSavedTabsForBackground st
      in if length tabs > 0 then (Undefined, st(BACKUP_STORAGE_KEY \<mapsto> tabs))
         else (Undefined, st))"

section \<open>Sequences of operations\<close>

text \<open>
  A history of calls of \<^verbatim>\<open>saveTabs\<close> and \<^verbatim>\<open>deleteTab\<close>. A save carries the clock
  value and the random draws of that call. \<open>stored\<close> reads the raw value of the
  live key, as \<^verbatim>\<open>result[STORAGE_KEY] || []\<close> does.
\<close>

datatype op = Save int "nat \<Rightarrow> string" "TabData list" | Delete string

fun step :: "op \<Rightarrow> storage \<Rightarrow> storage" where
  "step (Save now rnd tabsToSave) st = snd (saveTabs now rnd tabsToSave st)"
| "step (Delete tabId) st = snd (deleteTab tabId st)"

fun run :: "op list \<Rightarrow> storage \<Rightarrow> storage" where
  "run [] st = st"
| "run (o1 # ops) st = run ops (step o1 st)"

definition stored :: "storage \<Rightarrow> SavedTab list" where
  "stored st = (case st STORAGE_KEY of None \<Rightarrow> [] | Some v \<Rightarrow> v)"

text \<open>
  The records a call adds: the survivors of the dedup of a save, nothing for a
  delete. \<open>deletes i o1\<close> says that the call \<open>o1\<close> is \<^verbatim>\<open>deleteTab(i)\<close>.
  \<open>added_alive ops st\<close> lists, call by call, the records each call of the history
  adds that no later call of the history deletes by their \<^verbatim>\<open>id\<close>.
\<close>

fun added :: "op \<Rightarrow> storage \<Rightarrow> SavedTab list" where
  "added (Save now rnd tabsToSave) st =
     uniqueNewTabs (getSavedTabs st) (newTabs now rnd tabsToSave)"
| "added (Delete tabId) st = []"

fun deletes :: "string \<Rightarrow> op \<Rightarrow> bool" where
  "deletes i (Delete tabId) = (i = tabId)"
| "deletes i (Save now rnd tabsToSave) = False"

fun added_alive :: "op list \<Rightarrow> storage \<Rightarrow> SavedTab list" where
  "added_alive [] st = []"
| "added_alive (o1 # ops) st =
     filter (\<lambda>r. \<not> list_ex (deletes (id' r)) ops) (added o1 st)
       @ added_alive ops (step o1 st)"

section \<open>Example values\<close>

text \<open>
  Concrete records, candidates and storages on which the theorems below are
  instantiated. \<open>tabA\<close> and \<open>tabC\<close> have the same \<^verbatim>\<open>savedAt\<close>; \<open>tabB\<close> is newer.
  \<open>candA\<close> has the url of \<open>tabA\<close>, \<open>candUpper\<close> the same url in another case.
\<close>

definition tabA :: SavedTab where
  "tabA = \<lparr> url = ''https://a.com'', title = ''A'', favIconUrl = None,
            id' = ''100-0-abc'', savedAt = 100 \<rparr>"

definition tabB :: SavedTab where
  "tabB = \<lparr> url = ''https://b.com'', title = ''B'', favIconUrl = Some ''https://b.com/f.ico'',
            id' = ''200-0-def'', savedAt = 200 \<rparr>"

definition tabC :: SavedTab where
  "tabC = \<lparr> url = ''https://c.com'', title = ''C'', favIconUrl = None,
            id' = ''100-1-ghi'', savedAt = 100 \<rparr>"

definition candA :: TabData where
  "candA = \<lparr> url = ''https://a.com'', title = ''A2'', favIconUrl = None \<rparr>"

definition candUpper :: TabData where
  "candUpper = \<lparr> url = ''https://A.com'', title = ''A3'', favIconUrl = None \<rparr>"

definition candD :: TabData where
  "candD = \<lparr> url = ''https://d.com'', title = ''D'', favIconUrl = None \<rparr>"

definition rnd0 :: "nat \<Rightarrow> string" where
  "rnd0 index = (if index = 0 then ''x7k2m9q'' else ''p0o9i8u'')"

text \<open>A live collection that is not in descending order of \<^verbatim>\<open>savedAt\<close>.\<close>

definition store3 :: storage where
  "store3 = [STORAGE_KEY \<mapsto> [tabA, tabB, tabC]]"

section \<open>The sort\<close>

lemma mset_insert_by: "mset (insert_by cmp x xs) = add_mset x (mset xs)"
  by (induction xs) simp_all

lemma mset_sort_by: "mset (sort_by cmp xs) = mset xs"
  by (induction xs) (simp_all add: sort_by_def mset_insert_by)

lemma set_sort_by: "set (sort_by cmp xs) = set xs"
  using mset_sort_by [of cmp xs] by (metis set_mset_mset)

lemma length_sort_by: "length (sort_by cmp xs) = length xs"
  using mset_sort_by [of cmp xs] by (metis size_mset)

lemma set_insert_by: "set (insert_by cmp x xs) = insert x (set xs)"
  by (induction xs) auto

lemma sorted_insert_by:
  "sorted_wrt (\<lambda>a b. savedAt b \<le> savedAt a) xs \<Longrightarrow>
   sorted_wrt (\<lambda>a b. savedAt b \<le> savedAt a) (insert_by (\<lambda>a b. savedAt b - savedAt a) x xs)"
  by (induction xs) (auto simp: set_insert_by)

lemma sorted_sort_by:
  "sorted_wrt (\<lambda>a b. savedAt b \<le> savedAt a) (sort_by (\<lambda>a b. savedAt b - savedAt a) xs)"
  by (induction xs) (simp_all add: sort_by_def sorted_insert_by)

lemma filter_insert_by:
  "filter (\<lambda>r. savedAt r = t) (insert_by (\<lambda>a b. savedAt b - savedAt a) x xs) =
   filter (\<lambda>r. savedAt r = t) (x # xs)"
  by (induction xs) auto

lemma filter_sort_by:
  "filter (\<lambda>r. savedAt r = t) (sort_by (\<lambda>a b. savedAt b - savedAt a) xs) =
   filter (\<lambda>r. savedAt r = t) xs"
  by (induction xs) (simp_all add: sort_by_def filter_insert_by)

lemma insert_by_sorted:
  "\<forall>y\<in>set xs. savedAt y \<le> savedAt x \<Longrightarrow> insert_by (\<lambda>a b. savedAt b - savedAt a) x xs = x # xs"
  by (cases xs) auto

lemma sort_by_sorted:
  "sorted_wrt (\<lambda>a b. savedAt b \<le> savedAt a) xs \<Longrightarrow> sort_by (\<lambda>a b. savedAt b - savedAt a) xs = xs"
  by (induction xs) (simp_all add: sort_by_def insert_by_sorted)

lemma getSavedTabs_stored: "getSavedTabs st = sort_by (\<lambda>a b. savedAt b - savedAt a) (stored st)"
  by (simp add: getSavedTabs_def stored_def)

lemma stored_saveTabs:
  "stored (snd (saveTabs now rnd tabsToSave st)) =
   uniqueNewTabs (getSavedTabs st) (newTabs now rnd tabsToSave) @ getSavedTabs st"
  by (simp add: saveTabs_def stored_def Let_def)

lemma stored_deleteTab:
  "stored (snd (deleteTab tabId st)) = filter (\<lambda>tab. id' tab \<noteq> tabId) (getSavedTabs st)"
  by (simp add: deleteTab_def stored_def Let_def)

lemma mset_getSavedTabs: "mset (getSavedTabs st) = mset (stored st)"
  by (simp add: getSavedTabs_stored mset_sort_by)

lemma mset_stored_step:
  "mset (filter (\<lambda>r. \<not> list_ex (deletes (id' r)) ops) (stored (step o1 st))) =
   mset (filter (\<lambda>r. \<not> list_ex (deletes (id' r)) (o1 # ops)) (stored st)) +
   mset (filter (\<lambda>r. \<not> list_ex (deletes (id' r)) ops) (added o1 st))"
proof (cases o1)
  case (Save now rnd tabsToSave)
  then show ?thesis
    by (simp add: stored_saveTabs mset_getSavedTabs)
next
  case (Delete tabId)
  then show ?thesis
    by (simp add: stored_deleteTab mset_getSavedTabs filter_filter_mset)
qed

lemma mset_stored_run:
  "mset (stored (run ops st)) =
   mset (filter (\<lambda>r. \<not> list_ex (deletes (id' r)) ops) (stored st)) + mset (added_alive ops st)"
proof (induction ops arbitrary: st)
  case Nil
  show ?case by simp
next
  case (Cons o1 ops)
  show ?case
    using Cons.IH [of "step o1 st"] mset_stored_step [of ops o1 st] by simp
qed


lemma of_char_digit_char: "n < 10 \<Longrightarrow> of_char (digit_char n) = (48 + n :: nat)"
  by (simp add: digit_char_def)

lemma digit_char_neq_dash: "n < 10 \<Longrightarrow> digit_char n \<noteq> CHR ''-''"
proof
  assume n: "n < 10" and e: "digit_char n = CHR ''-''"
  have "(of_char (digit_char n) :: nat) = 48 + n" using n by (rule of_char_digit_char)
  with e show False by simp
qed

lemma digit_char_inj: "n < 10 \<Longrightarrow> m < 10 \<Longrightarrow> digit_char n = digit_char m \<Longrightarrow> n = m"
proof -
  assume n: "n < 10" and m: "m < 10" and e: "digit_char n = digit_char m"
  have "48 + n = (of_char (digit_char n) :: nat)"
    using n by (simp only: of_char_digit_char)
  also have "\<dots> = of_char (digit_char m)"
    by (simp only: e)
  also have "\<dots> = 48 + m"
    using m by (simp only: of_char_digit_char)
  finally show "n = m" by simp
qed

lemma dash_notin_show_nat: "CHR ''-'' \<notin> set (show_nat n)"
proof (induction n rule: show_nat.induct)
  case (1 n)
  show ?case
  proof (cases "n < 10")
    case True
    then show ?thesis
      using digit_char_neq_dash [of n] by (simp add: show_nat.simps [of n])
  next
    case False
    then show ?thesis
      using "1" digit_char_neq_dash [of "n mod 10"] by (simp add: show_nat.simps [of n])
  qed
qed

lemma length_show_nat: "0 < length (show_nat n)"
  by (subst show_nat.simps) simp

lemma show_nat_inj: "show_nat n = show_nat m \<Longrightarrow> n = m"
proof (induction n arbitrary: m rule: show_nat.induct)
  case (1 n)
  show ?case
  proof (cases "n < 10")
    case True
    show ?thesis
    proof (cases "m < 10")
      case mt: True
      with True "1.prems" show ?thesis
        by (simp add: show_nat.simps [of n] show_nat.simps [of m] digit_char_inj)
    next
      case mf: False
      have "length (show_nat m) = Suc (length (show_nat (m div 10)))"
        using mf by (simp add: show_nat.simps [of m])
      moreover have "length (show_nat n) = 1"
        using True by (simp add: show_nat.simps [of n])
      ultimately show ?thesis
        using "1.prems" length_show_nat [of "m div 10"] by simp
    qed
  next
    case False
    show ?thesis
    proof (cases "m < 10")
      case mt: True
      have "length (show_nat n) = Suc (length (show_nat (n div 10)))"
        using False by (simp add: show_nat.simps [of n])
      moreover have "length (show_nat m) = 1"
        using mt by (simp add: show_nat.simps [of m])
      ultimately show ?thesis
        using "1.prems" length_show_nat [of "n div 10"] by simp
    next
      case mf: False
      from False mf "1.prems"
      have e: "show_nat (n div 10) = show_nat (m div 10)"
        and d: "digit_char (n mod 10) = digit_char (m mod 10)"
        by (simp_all add: show_nat.simps [of n] show_nat.simps [of m])
      from "1.IH" [OF False e] have "n div 10 = m div 10" .
      moreover from d have "n mod 10 = m mod 10"
        by (simp add: digit_char_inj)
      ultimately show ?thesis
        by (metis div_mult_mod_eq)
    qed
  qed
qed

lemma append_dash_eq:
  "CHR ''-'' \<notin> set a \<Longrightarrow> CHR ''-'' \<notin> set b \<Longrightarrow>
   a @ CHR ''-'' # r = b @ CHR ''-'' # r' \<Longrightarrow> a = b"
proof (induction a arbitrary: b)
  case Nil
  then show ?case by (cases b) auto
next
  case (Cons x a)
  then show ?case by (cases b) auto
qed

lemma show_nat_dash_inj:
  "show_nat i @ ''-'' @ r = show_nat j @ ''-'' @ r' \<Longrightarrow> i = j"
proof -
  assume "show_nat i @ ''-'' @ r = show_nat j @ ''-'' @ r'"
  then have "show_nat i @ CHR ''-'' # r = show_nat j @ CHR ''-'' # r'" by simp
  then have "show_nat i = show_nat j"
    using append_dash_eq dash_notin_show_nat by blast
  then show ?thesis by (rule show_nat_inj)
qed

lemma map_fst_enumerate_fun:
  "map (\<lambda>x. g (fst x)) (enumerate 0 xs) = map g [0..<length xs]"
proof -
  have "map (\<lambda>x. g (fst x)) ys = map g (map fst ys)" for ys :: "(nat \<times> 'b) list"
    by (simp add: comp_def)
  from this [of "enumerate 0 xs"] show ?thesis
    by (simp del: map_map)
qed

lemma map_id_newTabs:
  "map id' (newTabs now rnd tabsToSave) =
   map (\<lambda>index. show_int now @ ''-'' @ show_nat index @ ''-'' @ rnd index) [0..<length tabsToSave]"
  using map_fst_enumerate_fun
    [of "\<lambda>index. show_int now @ ''-'' @ show_nat index @ ''-'' @ rnd index" tabsToSave]
  by (simp add: newTabs_def comp_def case_prod_beta)

lemma distinct_id_newTabs: "distinct (map id' (newTabs now rnd tabsToSave))"
  unfolding map_id_newTabs
  by (auto simp: distinct_map inj_on_def dest: show_nat_dash_inj simp del: append.simps)

lemma map_savedAt_newTabs:
  "map savedAt (newTabs now rnd tabsToSave) = replicate (length tabsToSave) now"
  by (simp add: newTabs_def case_prod_beta comp_def map_replicate_const)

lemma digit_char_numeral:
  "digit_char 0 = CHR ''0''" "digit_char 1 = CHR ''1''" "digit_char 2 = CHR ''2''"
  "digit_char 3 = CHR ''3''" "digit_char 4 = CHR ''4''" "digit_char 5 = CHR ''5''"
  "digit_char 6 = CHR ''6''" "digit_char 7 = CHR ''7''" "digit_char 8 = CHR ''8''"
  "digit_char 9 = CHR ''9''" "digit_char (Suc 0) = CHR ''1''"
  by code_simp+

text \<open>The equations that evaluate the model on the example values.\<close>

lemmas ex_defs = tabA_def tabB_def tabC_def candA_def candUpper_def candD_def rnd0_def
  store3_def STORAGE_KEY_def BACKUP_STORAGE_KEY_def

lemmas run_defs = saveTabs_def deleteTab_def performBackup_def clearAllTabs_def stored_def
  newTabs_def uniqueNewTabs_def getSavedTabs_def getSavedTabsForBackground_def sort_by_def
  Let_def show_int_def show_nat.simps digit_char_numeral

section \<open>Reading the collection\<close>

text \<open>
  Claim C5. \<^verbatim>\<open>getSavedTabs\<close> returns the empty sequence when the storage key is
  absent (never written), whatever the other keys hold. For every storage its
  result holds exactly the records of the stored collection, each as often as it is
  stored, in descending order of \<^verbatim>\<open>savedAt\<close>: every element's \<^verbatim>\<open>savedAt\<close> is at
  least that of every later element. Records with the same \<^verbatim>\<open>savedAt\<close> come in
  their stored order, so the result is determined by the stored collection.
\<close>

theorem getSavedTabs_sorted:
  "getSavedTabs (st(STORAGE_KEY := None)) = [] \<and>
   sorted_wrt (\<lambda>a b. savedAt a \<ge> savedAt b) (getSavedTabs st) \<and>
   mset (getSavedTabs st) = mset (stored st) \<and>
   length (getSavedTabs st) = length (stored st) \<and>
   filter (\<lambda>r. savedAt r = t) (getSavedTabs st) = filter (\<lambda>r. savedAt r = t) (stored st)"
proof -
  have e: "getSavedTabs (st(STORAGE_KEY := None)) = []"
    by (simp add: getSavedTabs_def sort_by_def)
  have o: "sorted_wrt (\<lambda>a b. savedAt a \<ge> savedAt b) (getSavedTabs st)"
    by (simp add: getSavedTabs_stored sorted_sort_by)
  have m: "mset (getSavedTabs st) = mset (stored st)"
    by (rule mset_getSavedTabs)
  have l: "length (getSavedTabs st) = length (stored st)"
    by (simp add: getSavedTabs_stored length_sort_by)
  have f: "filter (\<lambda>r. savedAt r = t) (getSavedTabs st) =
      filter (\<lambda>r. savedAt r = t) (stored st)"
    by (simp add: getSavedTabs_stored filter_sort_by)
  show ?thesis using e o m l f by blast
qed

text \<open>
  On the empty storage the result is empty. On the collection
  \<open>[tabA, tabB, tabC]\<close>, where \<open>tabB\<close> is the newest and the other two have the same
  \<^verbatim>\<open>savedAt\<close>, the result is \<open>[tabB, tabA, tabC]\<close>: the same three records, newest
  first, \<open>tabA\<close> still before \<open>tabC\<close>.
\<close>

theorem getSavedTabs_sorted_witness:
  "getSavedTabs Map.empty = [] \<and>
   stored store3 = [tabA, tabB, tabC] \<and>
   getSavedTabs store3 = [tabB, tabA, tabC] \<and>
   sorted_wrt (\<lambda>a b. savedAt a \<ge> savedAt b) [tabB, tabA, tabC] \<and>
   mset [tabB, tabA, tabC] = mset [tabA, tabB, tabC] \<and>
   filter (\<lambda>r. savedAt r = 100) [tabB, tabA, tabC] =
     filter (\<lambda>r. savedAt r = 100) [tabA, tabB, tabC]"
proof -
  have s: "stored store3 = [tabA, tabB, tabC]"
    by (simp add: stored_def ex_defs)
  have g: "getSavedTabs store3 = [tabB, tabA, tabC]"
    by (simp add: getSavedTabs_def sort_by_def ex_defs)
  have "getSavedTabs (Map.empty(STORAGE_KEY := None)) = []"
    using getSavedTabs_sorted [of Map.empty] by blast
  then have e: "getSavedTabs Map.empty = []"
    by simp
  have "sorted_wrt (\<lambda>a b. savedAt a \<ge> savedAt b) (getSavedTabs store3) \<and>
      mset (getSavedTabs store3) = mset (stored store3) \<and>
      filter (\<lambda>r. savedAt r = 100) (getSavedTabs store3) =
        filter (\<lambda>r. savedAt r = 100) (stored store3)"
    using getSavedTabs_sorted [of store3 100] by blast
  then have "sorted_wrt (\<lambda>a b. savedAt a \<ge> savedAt b) [tabB, tabA, tabC] \<and>
      mset [tabB, tabA, tabC] = mset [tabA, tabB, tabC] \<and>
      filter (\<lambda>r. savedAt r = 100) [tabB, tabA, tabC] =
        filter (\<lambda>r. savedAt r = 100) [tabA, tabB, tabC]"
    unfolding s g .
  then show ?thesis
    using e s g by (intro conjI) blast+
qed

section \<open>The records a save creates\<close>

text \<open>
  Claim C9. Within one call of \<^verbatim>\<open>saveTabs\<close> every record created has the same
  \<^verbatim>\<open>savedAt\<close>, the clock value \<open>now\<close> of the call, and the ids created are
  pairwise distinct: the id at position \<open>index\<close> is the clock value, the index and
  the random suffix, joined by dashes. Both hold for all the records created and
  for those that survive the dedup, whatever the random suffixes are.
\<close>

theorem newTabs_savedAt_ids:
  "map savedAt (newTabs now rnd tabsToSave) = replicate (length tabsToSave) now \<and>
   distinct (map id' (newTabs now rnd tabsToSave)) \<and>
   map id' (newTabs now rnd tabsToSave) =
     map (\<lambda>index. show_int now @ ''-'' @ show_nat index @ ''-'' @ rnd index)
       [0..<length tabsToSave] \<and>
   map savedAt (uniqueNewTabs existingTabs (newTabs now rnd tabsToSave)) =
     replicate (length (uniqueNewTabs existingTabs (newTabs now rnd tabsToSave))) now \<and>
   distinct (map id' (uniqueNewTabs existingTabs (newTabs now rnd tabsToSave)))"
proof -
  have s: "map savedAt (newTabs now rnd tabsToSave) = replicate (length tabsToSave) now"
    by (rule map_savedAt_newTabs)
  have "\<forall>r \<in> set (newTabs now rnd tabsToSave). savedAt r = now"
    by (auto simp: newTabs_def)
  then have u: "map savedAt (uniqueNewTabs existingTabs (newTabs now rnd tabsToSave)) =
     replicate (length (uniqueNewTabs existingTabs (newTabs now rnd tabsToSave))) now"
    by (simp add: uniqueNewTabs_def map_replicate_const [symmetric]
        del: map_replicate_const cong: map_cong)
  have d: "distinct (map id' (uniqueNewTabs existingTabs (newTabs now rnd tabsToSave)))"
    unfolding uniqueNewTabs_def by (rule distinct_map_filter) (rule distinct_id_newTabs)
  show ?thesis
    using s u d distinct_id_newTabs [of now rnd tabsToSave] map_id_newTabs [of now rnd tabsToSave]
    by (simp del: append.simps)
qed

section \<open>Histories of saves and deletes\<close>

text \<open>
  Claim C1. After any sequence of \<^verbatim>\<open>saveTabs\<close> and \<^verbatim>\<open>deleteTab\<close> calls that starts
  from the empty storage, \<^verbatim>\<open>getSavedTabs\<close> returns exactly (as a multiset) the
  records that the save calls added after their dedup and that no later
  \<^verbatim>\<open>deleteTab\<close> call named by its id. The records returned are the records as
  their save call created them, so each has the \<^verbatim>\<open>id\<close> and \<^verbatim>\<open>savedAt\<close> given to
  it there.
\<close>

theorem getSavedTabs_after_history:
  "mset (getSavedTabs (run ops Map.empty)) = mset (added_alive ops Map.empty)"
  using mset_stored_run [of ops Map.empty]
  by (simp add: mset_getSavedTabs stored_def)

text \<open>
  A history on the example values: a batch of two, a batch of a known url and a new
  one, and the delete of the first record created. The copy of \<open>candA\<close> of the
  second call is dropped by the dedup, the record of \<open>candD\<close> by the delete.
\<close>

theorem getSavedTabs_after_history_witness:
  "added_alive
     [Save 200 rnd0 [candD, candA], Save 300 rnd0 [candA, candUpper], Delete ''200-0-x7k2m9q'']
     Map.empty =
     [\<lparr> url = ''https://a.com'', title = ''A2'', favIconUrl = None,
         id' = ''200-1-p0o9i8u'', savedAt = 200 \<rparr>,
      \<lparr> url = ''https://A.com'', title = ''A3'', favIconUrl = None,
         id' = ''300-1-p0o9i8u'', savedAt = 300 \<rparr>] \<and>
   mset (getSavedTabs (run
     [Save 200 rnd0 [candD, candA], Save 300 rnd0 [candA, candUpper], Delete ''200-0-x7k2m9q'']
     Map.empty)) =
     {#\<lparr> url = ''https://a.com'', title = ''A2'', favIconUrl = None,
         id' = ''200-1-p0o9i8u'', savedAt = 200 \<rparr>,
      \<lparr> url = ''https://A.com'', title = ''A3'', favIconUrl = None,
         id' = ''300-1-p0o9i8u'', savedAt = 300 \<rparr>#}"
proof -
  have a: "added_alive
     [Save 200 rnd0 [candD, candA], Save 300 rnd0 [candA, candUpper], Delete ''200-0-x7k2m9q'']
     Map.empty =
     [\<lparr> url = ''https://a.com'', title = ''A2'', favIconUrl = None,
         id' = ''200-1-p0o9i8u'', savedAt = 200 \<rparr>,
      \<lparr> url = ''https://A.com'', title = ''A3'', favIconUrl = None,
         id' = ''300-1-p0o9i8u'', savedAt = 300 \<rparr>]"
    by (simp add: run_defs ex_defs)
  show ?thesis
    using getSavedTabs_after_history
      [of "[Save 200 rnd0 [candD, candA], Save 300 rnd0 [candA, candUpper],
            Delete ''200-0-x7k2m9q'']"]
    by (simp only: a) simp
qed

section \<open>Facts about a save\<close>

lemma uniqueNewTabs_filter:
  "uniqueNewTabs existingTabs new = filter (\<lambda>r. url r \<notin> url ` set existingTabs) new"
proof -
  have "(\<not> list_ex (\<lambda>existingTab. url existingTab = url r) existingTabs) =
        (url r \<notin> url ` set existingTabs)" for r :: SavedTab
    by (induction existingTabs) auto
  then show ?thesis by (simp add: uniqueNewTabs_def)
qed

lemma set_getSavedTabs: "set (getSavedTabs st) = set (stored st)"
  by (simp add: getSavedTabs_stored set_sort_by)

lemma length_getSavedTabs: "length (getSavedTabs st) = length (stored st)"
  by (simp add: getSavedTabs_stored length_sort_by)

lemma sorted_getSavedTabs: "sorted_wrt (\<lambda>a b. savedAt b \<le> savedAt a) (getSavedTabs st)"
  by (simp add: getSavedTabs_stored sorted_sort_by)

lemma truncate_newTabs: "map TabData.truncate (newTabs now rnd tabsToSave) = tabsToSave"
proof -
  have "map TabData.truncate (newTabs now rnd tabsToSave) = map snd (enumerate 0 tabsToSave)"
    by (simp add: newTabs_def TabData.truncate_def case_prod_beta comp_def del: map_snd_enumerate)
  then show ?thesis by simp
qed

lemma truncate_uniqueNewTabs:
  "map TabData.truncate (uniqueNewTabs existingTabs (newTabs now rnd tabsToSave)) =
   filter (\<lambda>c. url c \<notin> url ` set existingTabs) tabsToSave"
proof -
  have "map TabData.truncate (filter (\<lambda>r. url r \<notin> url ` set existingTabs) xs) =
        filter (\<lambda>c. url c \<notin> url ` set existingTabs) (map TabData.truncate xs)"
    for xs :: "SavedTab list"
    by (induction xs) (simp_all add: TabData.truncate_def)
  then show ?thesis
    by (simp add: uniqueNewTabs_filter truncate_newTabs)
qed

lemma length_uniqueNewTabs:
  "length (uniqueNewTabs existingTabs (newTabs now rnd tabsToSave)) =
   length (filter (\<lambda>c. url c \<notin> url ` set existingTabs) tabsToSave)"
  using truncate_uniqueNewTabs [of existingTabs now rnd tabsToSave]
  by (metis length_map)

section \<open>What a save returns and reports\<close>

text \<open>
  Claim C2 says that \<^verbatim>\<open>saveTabs\<close> returns the number of records added. The
  function is declared \<^verbatim>\<open>Promise<void>\<close> and has no \<^verbatim>\<open>return\<close>: saving one new
  candidate into the empty storage adds one record, and the value returned is
  \<^verbatim>\<open>undefined\<close>, not the number 1.
\<close>

theorem saveTabs_returns_number_counterexample:
  "stored Map.empty = [] \<and>
   length (stored (snd (saveTabs 300 rnd0 [candD] Map.empty))) = 1 \<and>
   fst (saveTabs 300 rnd0 [candD] Map.empty) \<noteq> Number 1"
  by (simp add: saveTabs_def stored_def newTabs_def uniqueNewTabs_def getSavedTabs_def
      sort_by_def ex_defs Let_def)

text \<open>
  Claim C2, amended. \<^verbatim>\<open>saveTabs\<close> returns \<^verbatim>\<open>undefined\<close>. The number of records it
  adds to the stored collection is the number of candidates whose url does not
  occur in the stored collection, and that number is what the call prints in its
  console line \<^verbatim>\<open>Saved n new tabs.\<close>
\<close>

theorem saveTabs_logs_number_added:
  "fst (saveTabs now rnd tabsToSave st) = Undefined \<and>
   length (stored (snd (saveTabs now rnd tabsToSave st))) =
     length (stored st) + length (filter (\<lambda>c. url c \<notin> url ` set (stored st)) tabsToSave) \<and>
   saveTabs_log now rnd tabsToSave st =
     ''Saved '' @ show_nat (length (filter (\<lambda>c. url c \<notin> url ` set (stored st)) tabsToSave))
       @ '' new tabs.''"
proof -
  have "fst (saveTabs now rnd tabsToSave st) = Undefined"
    by (simp add: saveTabs_def Let_def)
  moreover have "length (stored (snd (saveTabs now rnd tabsToSave st))) =
     length (stored st) + length (filter (\<lambda>c. url c \<notin> url ` set (stored st)) tabsToSave)"
    by (simp add: stored_saveTabs length_uniqueNewTabs set_getSavedTabs length_getSavedTabs)
  moreover have "saveTabs_log now rnd tabsToSave st =
     ''Saved '' @ show_nat (length (filter (\<lambda>c. url c \<notin> url ` set (stored st)) tabsToSave))
       @ '' new tabs.''"
    by (simp add: saveTabs_log_def Let_def length_uniqueNewTabs set_getSavedTabs)
  ultimately show ?thesis by blast
qed

section \<open>The order of the collection a save writes\<close>

text \<open>
  Claim C6. The collection \<^verbatim>\<open>saveTabs\<close> writes is the surviving new records
  followed by the existing records as \<^verbatim>\<open>getSavedTabs\<close> read them. The survivors
  keep their batch order: they are a subsequence of the records created, and their
  candidate parts are exactly the candidates with an unknown url, in the order of
  the batch. No existing record is dropped: the old part is a permutation of the
  stored collection (the snapshot sorted by \<^verbatim>\<open>savedAt\<close>).
\<close>

theorem saveTabs_prepends:
  "stored (snd (saveTabs now rnd tabsToSave st)) =
     uniqueNewTabs (getSavedTabs st) (newTabs now rnd tabsToSave) @ getSavedTabs st \<and>
   subseq (uniqueNewTabs (getSavedTabs st) (newTabs now rnd tabsToSave))
     (newTabs now rnd tabsToSave) \<and>
   map TabData.truncate (uniqueNewTabs (getSavedTabs st) (newTabs now rnd tabsToSave)) =
     filter (\<lambda>c. url c \<notin> url ` set (stored st)) tabsToSave \<and>
   mset (getSavedTabs st) = mset (stored st)"
proof -
  have "subseq (uniqueNewTabs (getSavedTabs st) (newTabs now rnd tabsToSave))
     (newTabs now rnd tabsToSave)"
    by (simp add: uniqueNewTabs_def)
  then show ?thesis
    by (simp add: stored_saveTabs truncate_uniqueNewTabs set_getSavedTabs mset_getSavedTabs)
qed


lemma length_newTabs: "length (newTabs now rnd tabsToSave) = length tabsToSave"
  by (simp add: newTabs_def)

lemma url_newTabs_nth:
  "k < length tabsToSave \<Longrightarrow> url (newTabs now rnd tabsToSave ! k) = url (tabsToSave ! k)"
  by (simp add: newTabs_def nth_enumerate_eq)

lemma filter_url_newTabs:
  "length (filter (\<lambda>r. url r = U) (newTabs now rnd tabsToSave)) =
   length (filter (\<lambda>c. url c = U) tabsToSave)"
proof -
  have "map TabData.truncate (filter (\<lambda>r. url r = U) xs) =
        filter (\<lambda>c. url c = U) (map TabData.truncate xs)" for xs :: "SavedTab list"
    by (induction xs) (simp_all add: TabData.truncate_def)
  from this [of "newTabs now rnd tabsToSave"] show ?thesis
    by (metis length_map truncate_newTabs)
qed

lemma two_in_filter:
  assumes "i < j" "j < length xs" "P (xs ! i)" "P (xs ! j)"
  shows "2 \<le> length (filter P xs)"
proof -
  have i: "i < length xs" using assms by simp
  have split: "xs = take i xs @ xs ! i # drop (Suc i) xs"
    using i by (rule id_take_nth_drop)
  have "xs ! j = drop (Suc i) xs ! (j - Suc i)"
    using assms by simp
  moreover have "j - Suc i < length (drop (Suc i) xs)"
    using assms by simp
  ultimately have "xs ! j \<in> set (drop (Suc i) xs)"
    by (metis nth_mem)
  then have "xs ! j \<in> set (filter P (drop (Suc i) xs))"
    using assms by simp
  then have "1 \<le> length (filter P (drop (Suc i) xs))"
    by (metis length_pos_if_in_set less_eq_Suc_le One_nat_def)
  moreover have "length (filter P xs) =
      length (filter P (take i xs)) + Suc (length (filter P (drop (Suc i) xs)))"
    using assms(3) by (subst split) simp
  ultimately show ?thesis by simp
qed

section \<open>Duplicates within one batch\<close>

text \<open>
  Claim C4. The dedup looks only at the records stored when \<^verbatim>\<open>saveTabs\<close> is
  called, never at the batch itself. When no stored record has the url \<open>U\<close> and two
  candidates of the batch, at positions \<open>i < j\<close>, both have the url \<open>U\<close>, the records
  created for both are in the collection written, they both have the url \<open>U\<close> and
  different ids, and the collection holds as many records with the url \<open>U\<close> as
  the batch has candidates with it, at least two.
\<close>

theorem saveTabs_keeps_batch_duplicates:
  assumes "U \<notin> url ` set (stored st)"
    and "i < j" and "j < length tabsToSave"
    and "url (tabsToSave ! i) = U" and "url (tabsToSave ! j) = U"
  shows "newTabs now rnd tabsToSave ! i \<in> set (stored (snd (saveTabs now rnd tabsToSave st))) \<and>
         newTabs now rnd tabsToSave ! j \<in> set (stored (snd (saveTabs now rnd tabsToSave st))) \<and>
         url (newTabs now rnd tabsToSave ! i) = U \<and>
         url (newTabs now rnd tabsToSave ! j) = U \<and>
         id' (newTabs now rnd tabsToSave ! i) \<noteq> id' (newTabs now rnd tabsToSave ! j) \<and>
         length (filter (\<lambda>r. url r = U) (stored (snd (saveTabs now rnd tabsToSave st)))) =
           length (filter (\<lambda>c. url c = U) tabsToSave) \<and>
         2 \<le> length (filter (\<lambda>c. url c = U) tabsToSave)"
proof -
  let ?new = "newTabs now rnd tabsToSave"
  let ?after = "stored (snd (saveTabs now rnd tabsToSave st))"
  have li: "i < length ?new" and lj: "j < length ?new"
    using assms by (simp_all add: length_newTabs)
  have ui: "url (?new ! i) = U" and uj: "url (?new ! j) = U"
    using assms by (simp_all add: url_newTabs_nth)
  have after: "?after = filter (\<lambda>r. url r \<notin> url ` set (stored st)) ?new @ getSavedTabs st"
    by (simp add: stored_saveTabs uniqueNewTabs_filter set_getSavedTabs)
  have mi: "?new ! i \<in> set ?after"
    using li ui assms(1) by (simp add: after)
  have mj: "?new ! j \<in> set ?after"
    using lj uj assms(1) by (simp add: after)
  have "map id' ?new ! i \<noteq> map id' ?new ! j"
    using distinct_id_newTabs [of now rnd tabsToSave] li lj assms(2)
    by (simp add: nth_eq_iff_index_eq del: nth_map)
  then have ids: "id' (?new ! i) \<noteq> id' (?new ! j)"
    using li lj by simp
  have old: "filter (\<lambda>r. url r = U) (getSavedTabs st) = []"
    using assms(1) by (auto simp: filter_empty_conv set_getSavedTabs)
  have "filter (\<lambda>r. url r = U) (filter (\<lambda>r. url r \<notin> url ` set (stored st)) ?new) =
        filter (\<lambda>r. url r = U) ?new"
    using assms(1) by (auto simp: filter_filter intro!: filter_cong)
  then have cnt: "length (filter (\<lambda>r. url r = U) ?after) =
      length (filter (\<lambda>c. url c = U) tabsToSave)"
    by (simp add: after old filter_url_newTabs del: filter_filter)
  have two: "2 \<le> length (filter (\<lambda>c. url c = U) tabsToSave)"
    using assms by (intro two_in_filter [of i j]) simp_all
  show ?thesis using mi mj ui uj ids cnt two by blast
qed

text \<open>
  The scenario of the specification: the storage is empty and one batch holds the
  same url twice. Both records are stored.
\<close>

theorem saveTabs_keeps_batch_duplicates_witness:
  "stored (snd (saveTabs 300 rnd0 [candD, candD] Map.empty)) =
     [\<lparr> url = ''https://d.com'', title = ''D'', favIconUrl = None,
         id' = ''300-0-x7k2m9q'', savedAt = 300 \<rparr>,
      \<lparr> url = ''https://d.com'', title = ''D'', favIconUrl = None,
         id' = ''300-1-p0o9i8u'', savedAt = 300 \<rparr>] \<and>
   length (filter (\<lambda>r. url r = ''https://d.com'')
     (stored (snd (saveTabs 300 rnd0 [candD, candD] Map.empty)))) = 2"
proof -
  have "length (filter (\<lambda>r. url r = ''https://d.com'')
     (stored (snd (saveTabs 300 rnd0 [candD, candD] Map.empty)))) =
     length (filter (\<lambda>c. url c = ''https://d.com'') [candD, candD])"
    using saveTabs_keeps_batch_duplicates
      [of "''https://d.com''" Map.empty 0 1 "[candD, candD]" 300 rnd0]
    by (simp add: stored_def candD_def)
  then show ?thesis
    by (simp add: run_defs ex_defs)
qed


lemma getSavedTabs_unchanged_iff:
  "(getSavedTabs st = stored st) = sorted_wrt (\<lambda>a b. savedAt b \<le> savedAt a) (stored st)"
  using sorted_getSavedTabs [of st] sort_by_sorted [of "stored st"]
  by (auto simp: getSavedTabs_stored)

lemma filter_savedAt_getSavedTabs:
  "filter (\<lambda>r. savedAt r = t) (getSavedTabs st) = filter (\<lambda>r. savedAt r = t) (stored st)"
  by (simp add: getSavedTabs_stored filter_sort_by)

lemma getSavedTabs_deleteTab:
  "getSavedTabs (snd (deleteTab tabId st)) = filter (\<lambda>tab. id' tab \<noteq> tabId) (getSavedTabs st)"
proof -
  have "sorted_wrt (\<lambda>a b. savedAt b \<le> savedAt a)
          (filter (\<lambda>tab. id' tab \<noteq> tabId) (getSavedTabs st))"
    using sorted_getSavedTabs by (rule sorted_wrt_filter)
  then show ?thesis
    using getSavedTabs_stored [of "snd (deleteTab tabId st)"]
    by (simp add: stored_deleteTab sort_by_sorted)
qed

lemma uniqueNewTabs_all_known:
  "list_all (\<lambda>c. url c \<in> url ` set existingTabs) tabsToSave \<Longrightarrow>
   uniqueNewTabs existingTabs (newTabs now rnd tabsToSave) = []"
proof -
  assume a: "list_all (\<lambda>c. url c \<in> url ` set existingTabs) tabsToSave"
  have "filter (\<lambda>c. url c \<notin> url ` set existingTabs) tabsToSave = []"
    using a by (simp add: filter_empty_conv list_all_iff)
  then have "map TabData.truncate (uniqueNewTabs existingTabs (newTabs now rnd tabsToSave)) = []"
    by (simp add: truncate_uniqueNewTabs)
  then show ?thesis by simp
qed

section \<open>Dedup against the stored collection\<close>

text \<open>
  Claim C3. The survivors of a save are the records created whose url is not,
  by equality of strings (no normalisation, upper and lower case differ), the url of
  a record in the stored collection. A candidate anywhere in a batch whose url is
  that of a stored record adds nothing to the size of the collection written, and
  one whose url matches no stored record adds exactly one. Saving a single
  candidate with a known url writes back the collection as read; saving a single
  candidate with a new url makes the collection one longer.
\<close>

theorem saveTabs_dedup_by_url:
  "uniqueNewTabs (getSavedTabs st) (newTabs now rnd tabsToSave) =
     filter (\<lambda>r. url r \<notin> url ` set (stored st)) (newTabs now rnd tabsToSave) \<and>
   length (stored (snd (saveTabs now rnd (pre @ c # post) st))) =
     length (stored (snd (saveTabs now rnd (pre @ post) st))) +
       (if url c \<in> url ` set (stored st) then 0 else 1) \<and>
   (url c \<in> url ` set (stored st) \<longrightarrow>
      stored (snd (saveTabs now rnd [c] st)) = getSavedTabs st) \<and>
   (url c \<notin> url ` set (stored st) \<longrightarrow>
      length (stored (snd (saveTabs now rnd [c] st))) = length (stored st) + 1)"
proof -
  have len: "length (stored (snd (saveTabs now rnd xs st))) =
      length (filter (\<lambda>c. url c \<notin> url ` set (stored st)) xs) + length (stored st)"
    for xs
    by (simp add: stored_saveTabs length_uniqueNewTabs set_getSavedTabs length_getSavedTabs)
  have "url c \<in> url ` set (stored st) \<Longrightarrow>
      stored (snd (saveTabs now rnd [c] st)) = getSavedTabs st"
    using uniqueNewTabs_all_known [of "getSavedTabs st" "[c]" now rnd]
    by (simp add: stored_saveTabs set_getSavedTabs)
  then show ?thesis
    by (simp add: uniqueNewTabs_filter set_getSavedTabs len)
qed

text \<open>
  On the collection \<open>[tabA, tabB, tabC]\<close>: the candidate with the url of \<open>tabA\<close>
  changes nothing, the candidate with that url in upper case is stored.
\<close>

theorem saveTabs_dedup_by_url_witness:
  "url candA \<in> url ` set (stored store3) \<and>
   stored (snd (saveTabs 300 rnd0 [candA] store3)) = [tabB, tabA, tabC] \<and>
   url candUpper \<notin> url ` set (stored store3) \<and>
   length (stored store3) = 3 \<and>
   length (stored (snd (saveTabs 300 rnd0 [candUpper] store3))) = 4"
proof -
  have a: "url candA \<in> url ` set (stored store3)"
    by (simp add: stored_def ex_defs)
  have u: "url candUpper \<notin> url ` set (stored store3)"
    by (simp add: stored_def ex_defs)
  have g: "getSavedTabs store3 = [tabB, tabA, tabC]"
    by (simp add: getSavedTabs_def sort_by_def ex_defs)
  have l: "length (stored store3) = 3"
    by (simp add: stored_def ex_defs)
  show ?thesis
    using a u g l saveTabs_dedup_by_url [of store3 300 rnd0 "[]" "[]" candA "[]"]
      saveTabs_dedup_by_url [of store3 300 rnd0 "[]" "[]" candUpper "[]"]
    by simp
qed

section \<open>Deleting by id\<close>

text \<open>
  Claim C7. \<^verbatim>\<open>deleteTab\<close> returns normally (\<^verbatim>\<open>undefined\<close>; the function has no
  error path of its own) and writes back the collection as read without the records
  whose \<^verbatim>\<open>id\<close> equals the argument; every other record stays, with all its
  fields. When no stored record has the given id the collection holds the same
  records as before, and \<^verbatim>\<open>getSavedTabs\<close> returns the same sequence as before.
\<close>

theorem deleteTab_removes_by_id:
  "fst (deleteTab tabId st) = Undefined \<and>
   stored (snd (deleteTab tabId st)) = filter (\<lambda>tab. id' tab \<noteq> tabId) (getSavedTabs st) \<and>
   getSavedTabs (snd (deleteTab tabId st)) =
     filter (\<lambda>tab. id' tab \<noteq> tabId) (getSavedTabs st) \<and>
   mset (stored (snd (deleteTab tabId st))) =
     filter_mset (\<lambda>tab. id' tab \<noteq> tabId) (mset (stored st)) \<and>
   (tabId \<notin> id' ` set (stored st) \<longrightarrow>
      mset (stored (snd (deleteTab tabId st))) = mset (stored st) \<and>
      getSavedTabs (snd (deleteTab tabId st)) = getSavedTabs st)"
proof -
  have r: "fst (deleteTab tabId st) = Undefined"
    by (simp add: deleteTab_def Let_def)
  have m: "mset (stored (snd (deleteTab tabId st))) =
     filter_mset (\<lambda>tab. id' tab \<noteq> tabId) (mset (stored st))"
    by (simp add: stored_deleteTab mset_getSavedTabs)
  have n: "mset (stored (snd (deleteTab tabId st))) = mset (stored st) \<and>
      getSavedTabs (snd (deleteTab tabId st)) = getSavedTabs st"
    if a: "tabId \<notin> id' ` set (stored st)"
  proof -
    have "filter (\<lambda>tab. id' tab \<noteq> tabId) (getSavedTabs st) = getSavedTabs st"
      using a by (auto simp: filter_id_conv set_getSavedTabs)
    then show ?thesis
      by (simp add: stored_deleteTab getSavedTabs_deleteTab mset_getSavedTabs)
  qed
  have s: "stored (snd (deleteTab tabId st)) =
      filter (\<lambda>tab. id' tab \<noteq> tabId) (getSavedTabs st)"
    by (rule stored_deleteTab)
  have g: "getSavedTabs (snd (deleteTab tabId st)) =
      filter (\<lambda>tab. id' tab \<noteq> tabId) (getSavedTabs st)"
    by (rule getSavedTabs_deleteTab)
  show ?thesis
    using r s g m n by blast
qed

text \<open>
  On the collection \<open>[tabA, tabB, tabC]\<close>: deleting an unknown id keeps the three
  records, deleting the id of \<open>tabB\<close> leaves \<open>tabA\<close> and \<open>tabC\<close>.
\<close>

theorem deleteTab_removes_by_id_witness:
  "''nope'' \<notin> id' ` set (stored store3) \<and>
   fst (deleteTab ''nope'' store3) = Undefined \<and>
   getSavedTabs store3 = [tabB, tabA, tabC] \<and>
   getSavedTabs (snd (deleteTab ''nope'' store3)) = [tabB, tabA, tabC] \<and>
   mset (stored (snd (deleteTab ''nope'' store3))) = mset (stored store3) \<and>
   stored (snd (deleteTab ''200-0-def'' store3)) = [tabA, tabC]"
proof -
  have a: "''nope'' \<notin> id' ` set (stored store3)"
    by (simp add: stored_def ex_defs)
  have g: "getSavedTabs store3 = [tabB, tabA, tabC]"
    by (simp add: getSavedTabs_def sort_by_def ex_defs)
  have d: "filter (\<lambda>tab. id' tab \<noteq> ''200-0-def'') [tabB, tabA, tabC] = [tabA, tabC]"
    by (simp add: ex_defs)
  have "fst (deleteTab ''nope'' store3) = Undefined \<and>
      mset (stored (snd (deleteTab ''nope'' store3))) = mset (stored store3) \<and>
      getSavedTabs (snd (deleteTab ''nope'' store3)) = getSavedTabs store3"
    using a deleteTab_removes_by_id [of "''nope''" store3] by blast
  moreover have "stored (snd (deleteTab ''200-0-def'' store3)) =
      filter (\<lambda>tab. id' tab \<noteq> ''200-0-def'') (getSavedTabs store3)"
    using deleteTab_removes_by_id [of "''200-0-def''" store3] by blast
  ultimately show ?thesis
    using a g d by (simp only: simp_thms)
qed


lemma getSavedTabsForBackground_eq: "getSavedTabsForBackground st = getSavedTabs st"
  by (simp add: getSavedTabsForBackground_def getSavedTabs_def)

lemma getSavedTabs_Nil_iff: "(getSavedTabs st = []) = (stored st = [])"
  using length_getSavedTabs [of st] by (metis length_0_conv)

lemma keys_differ: "BACKUP_STORAGE_KEY \<noteq> STORAGE_KEY"
  by (simp add: BACKUP_STORAGE_KEY_def STORAGE_KEY_def)

section \<open>The backup\<close>

text \<open>
  Claim C8. One run of \<^verbatim>\<open>performBackup\<close>: when the live collection is not empty,
  the only change to the storage is that the backup key now holds the live
  collection as read (the same records; in the stored order exactly when that order
  is descending in \<^verbatim>\<open>savedAt\<close>), and the live key holds what it held. When the
  live collection is empty (or absent), the storage is not changed at all, so the
  backup key keeps its previous value.
\<close>

theorem performBackup_copies_live:
  "fst (performBackup st) = Undefined \<and>
   (stored st \<noteq> [] \<longrightarrow>
      snd (performBackup st) = st(BACKUP_STORAGE_KEY \<mapsto> getSavedTabsForBackground st) \<and>
      snd (performBackup st) STORAGE_KEY = st STORAGE_KEY \<and>
      mset (getSavedTabsForBackground st) = mset (stored st)) \<and>
   (stored st = [] \<longrightarrow> snd (performBackup st) = st) \<and>
   (getSavedTabsForBackground st = stored st) =
     sorted_wrt (\<lambda>a b. savedAt b \<le> savedAt a) (stored st)"
proof -
  have r: "fst (performBackup st) = Undefined"
    by (simp add: performBackup_def Let_def)
  have e: "snd (performBackup st) = st" if "stored st = []"
    using that getSavedTabs_Nil_iff [of st]
    by (simp add: performBackup_def Let_def getSavedTabsForBackground_eq)
  have n: "snd (performBackup st) = st(BACKUP_STORAGE_KEY \<mapsto> getSavedTabsForBackground st) \<and>
      snd (performBackup st) STORAGE_KEY = st STORAGE_KEY \<and>
      mset (getSavedTabsForBackground st) = mset (stored st)" if "stored st \<noteq> []"
  proof -
    have "getSavedTabsForBackground st \<noteq> []"
      using that getSavedTabs_Nil_iff [of st] by (simp add: getSavedTabsForBackground_eq)
    then have "snd (performBackup st) = st(BACKUP_STORAGE_KEY \<mapsto> getSavedTabsForBackground st)"
      by (simp add: performBackup_def Let_def)
    then show ?thesis
      using keys_differ by (simp add: getSavedTabsForBackground_eq mset_getSavedTabs)
  qed
  have v: "(getSavedTabsForBackground st = stored st) =
     sorted_wrt (\<lambda>a b. savedAt b \<le> savedAt a) (stored st)"
    by (simp add: getSavedTabsForBackground_eq getSavedTabs_unchanged_iff)
  show ?thesis using r e n v by blast
qed

text \<open>
  The scenario of the specification: a backup of three live records, then the live
  collection is cleared and the backup runs again. The backup key still holds the
  three records.
\<close>

theorem performBackup_copies_live_witness:
  "stored store3 \<noteq> [] \<and>
   snd (performBackup store3) BACKUP_STORAGE_KEY = Some [tabB, tabA, tabC] \<and>
   snd (performBackup store3) STORAGE_KEY = Some [tabA, tabB, tabC] \<and>
   stored (snd (clearAllTabs (snd (performBackup store3)))) = [] \<and>
   snd (performBackup (snd (clearAllTabs (snd (performBackup store3))))) BACKUP_STORAGE_KEY =
     Some [tabB, tabA, tabC]"
proof -
  let ?st1 = "snd (performBackup store3)"
  let ?st2 = "snd (clearAllTabs ?st1)"
  have a: "stored store3 \<noteq> []"
    by (simp add: stored_def ex_defs)
  have g: "getSavedTabsForBackground store3 = [tabB, tabA, tabC]"
    by (simp add: getSavedTabsForBackground_def sort_by_def ex_defs)
  have l: "store3 STORAGE_KEY = Some [tabA, tabB, tabC]"
    by (simp add: ex_defs)
  have 1: "?st1 = store3(BACKUP_STORAGE_KEY \<mapsto> [tabB, tabA, tabC]) \<and>
      ?st1 STORAGE_KEY = Some [tabA, tabB, tabC]"
  proof -
    have "?st1 = store3(BACKUP_STORAGE_KEY \<mapsto> getSavedTabsForBackground store3) \<and>
        ?st1 STORAGE_KEY = store3 STORAGE_KEY"
      using a performBackup_copies_live [of store3] by blast
    then show ?thesis unfolding g l .
  qed
  have k1: "?st1 BACKUP_STORAGE_KEY = Some [tabB, tabA, tabC]"
    using 1 by simp
  have k2: "?st1 STORAGE_KEY = Some [tabA, tabB, tabC]"
    using 1 by blast
  have b: "stored ?st2 = []"
    by (simp add: clearAllTabs_def stored_def)
  have k3: "snd (performBackup ?st2) = ?st2"
    using b performBackup_copies_live [of ?st2] by blast
  have "?st2 BACKUP_STORAGE_KEY = Some [tabB, tabA, tabC]"
    using k1 keys_differ by (simp add: clearAllTabs_def)
  then have k4: "snd (performBackup ?st2) BACKUP_STORAGE_KEY = Some [tabB, tabA, tabC]"
    by (simp only: k3)
  show ?thesis
    using a k1 k2 b k4 by (intro conjI)
qed

section \<open>Calls that add or remove nothing\<close>

text \<open>
  Claim C10 says that a call of \<^verbatim>\<open>saveTabs\<close> or \<^verbatim>\<open>deleteTab\<close> that adds or
  removes nothing can change the stored order of records with equal \<^verbatim>\<open>savedAt\<close>.
  It cannot: \<^verbatim>\<open>Array.prototype.sort\<close> is stable. On the stored collection
  \<open>[tabA, tabC]\<close>, two records with the same \<^verbatim>\<open>savedAt\<close>, deleting an unknown id
  and saving a candidate with a known url both write back \<open>[tabA, tabC]\<close>; and for
  no storage, no such call and no value \<open>t\<close> do the stored records with
  \<^verbatim>\<open>savedAt = t\<close> come in another order after the call.
\<close>

theorem noop_call_order_counterexample:
  "stored [STORAGE_KEY \<mapsto> [tabA, tabC]] = [tabA, tabC] \<and>
   stored (snd (deleteTab ''nope'' [STORAGE_KEY \<mapsto> [tabA, tabC]])) = [tabA, tabC] \<and>
   stored (snd (saveTabs 300 rnd0 [candA] [STORAGE_KEY \<mapsto> [tabA, tabC]])) = [tabA, tabC] \<and>
   \<not> (\<exists>st tabId t. tabId \<notin> id' ` set (stored st) \<and>
         filter (\<lambda>r. savedAt r = t) (stored (snd (deleteTab tabId st))) \<noteq>
         filter (\<lambda>r. savedAt r = t) (stored st)) \<and>
   \<not> (\<exists>st now rnd tabsToSave t.
         list_all (\<lambda>c. url c \<in> url ` set (stored st)) tabsToSave \<and>
         filter (\<lambda>r. savedAt r = t) (stored (snd (saveTabs now rnd tabsToSave st))) \<noteq>
         filter (\<lambda>r. savedAt r = t) (stored st))"
proof -
  have c: "stored [STORAGE_KEY \<mapsto> [tabA, tabC]] = [tabA, tabC] \<and>
   stored (snd (deleteTab ''nope'' [STORAGE_KEY \<mapsto> [tabA, tabC]])) = [tabA, tabC] \<and>
   stored (snd (saveTabs 300 rnd0 [candA] [STORAGE_KEY \<mapsto> [tabA, tabC]])) = [tabA, tabC]"
    by (simp add: run_defs ex_defs enumerate_eq_zip)
  have d: "filter (\<lambda>r. savedAt r = t) (stored (snd (deleteTab tabId st))) =
         filter (\<lambda>r. savedAt r = t) (stored st)"
    if "tabId \<notin> id' ` set (stored st)" for st tabId t
  proof -
    have "filter (\<lambda>tab. id' tab \<noteq> tabId) (getSavedTabs st) = getSavedTabs st"
      using that by (auto simp: filter_id_conv set_getSavedTabs)
    then show ?thesis
      by (simp add: stored_deleteTab filter_savedAt_getSavedTabs)
  qed
  have s: "filter (\<lambda>r. savedAt r = t) (stored (snd (saveTabs now rnd tabsToSave st))) =
         filter (\<lambda>r. savedAt r = t) (stored st)"
    if "list_all (\<lambda>c. url c \<in> url ` set (stored st)) tabsToSave" for st now rnd tabsToSave t
    using that uniqueNewTabs_all_known [of "getSavedTabs st" tabsToSave now rnd]
    by (simp add: stored_saveTabs set_getSavedTabs filter_savedAt_getSavedTabs)
  show ?thesis using c d s by blast
qed

text \<open>
  Claim C10, amended. \<^verbatim>\<open>saveTabs\<close> and \<^verbatim>\<open>deleteTab\<close> write the storage key on
  every call, also when nothing is added or removed; the value written is built
  from the snapshot \<^verbatim>\<open>getSavedTabs\<close> returns, sorted by \<^verbatim>\<open>savedAt\<close> descending.
  A call that adds or removes nothing therefore replaces the stored value by that
  snapshot: the same records, in another order exactly when the stored order was
  not descending in \<^verbatim>\<open>savedAt\<close>. Records with equal \<^verbatim>\<open>savedAt\<close> keep their
  relative order.
\<close>

theorem noop_call_rewrites_sorted:
  "snd (saveTabs now rnd tabsToSave st) STORAGE_KEY =
     Some (uniqueNewTabs (getSavedTabs st) (newTabs now rnd tabsToSave) @ getSavedTabs st) \<and>
   snd (deleteTab tabId st) STORAGE_KEY =
     Some (filter (\<lambda>tab. id' tab \<noteq> tabId) (getSavedTabs st)) \<and>
   (list_all (\<lambda>c. url c \<in> url ` set (stored st)) tabsToSave \<longrightarrow>
      snd (saveTabs now rnd tabsToSave st) STORAGE_KEY = Some (getSavedTabs st)) \<and>
   (tabId \<notin> id' ` set (stored st) \<longrightarrow>
      snd (deleteTab tabId st) STORAGE_KEY = Some (getSavedTabs st)) \<and>
   sorted_wrt (\<lambda>a b. savedAt b \<le> savedAt a) (getSavedTabs st) \<and>
   mset (getSavedTabs st) = mset (stored st) \<and>
   (getSavedTabs st = stored st) = sorted_wrt (\<lambda>a b. savedAt b \<le> savedAt a) (stored st) \<and>
   filter (\<lambda>r. savedAt r = t) (getSavedTabs st) = filter (\<lambda>r. savedAt r = t) (stored st)"
proof -
  have w1: "snd (saveTabs now rnd tabsToSave st) STORAGE_KEY =
     Some (uniqueNewTabs (getSavedTabs st) (newTabs now rnd tabsToSave) @ getSavedTabs st)"
    by (simp add: saveTabs_def Let_def)
  have w2: "snd (deleteTab tabId st) STORAGE_KEY =
     Some (filter (\<lambda>tab. id' tab \<noteq> tabId) (getSavedTabs st))"
    by (simp add: deleteTab_def Let_def)
  have n1: "snd (saveTabs now rnd tabsToSave st) STORAGE_KEY = Some (getSavedTabs st)"
    if "list_all (\<lambda>c. url c \<in> url ` set (stored st)) tabsToSave"
    using that uniqueNewTabs_all_known [of "getSavedTabs st" tabsToSave now rnd]
    by (simp add: w1 set_getSavedTabs)
  have n2: "snd (deleteTab tabId st) STORAGE_KEY = Some (getSavedTabs st)"
    if "tabId \<notin> id' ` set (stored st)"
  proof -
    have "filter (\<lambda>tab. id' tab \<noteq> tabId) (getSavedTabs st) = getSavedTabs st"
      using that by (auto simp: filter_id_conv set_getSavedTabs)
    then show ?thesis by (simp add: w2)
  qed
  show ?thesis
    using w1 w2 n1 n2 sorted_getSavedTabs [of st] mset_getSavedTabs [of st]
      getSavedTabs_unchanged_iff [of st] filter_savedAt_getSavedTabs [of t st]
    by blast
qed

text \<open>
  On the collection \<open>[tabA, tabB, tabC]\<close>, which is not in descending order, a
  delete of an unknown id and a save of a known url both write \<open>[tabB, tabA, tabC]\<close>;
  on the empty storage a delete creates the key with the empty collection. Such a
  stored order arises from \<^verbatim>\<open>saveTabs\<close> itself when the clock of a later call is
  behind that of an earlier one.
\<close>

theorem noop_call_rewrites_sorted_witness:
  "stored store3 = [tabA, tabB, tabC] \<and>
   ''nope'' \<notin> id' ` set (stored store3) \<and>
   list_all (\<lambda>c. url c \<in> url ` set (stored store3)) [candA] \<and>
   snd (deleteTab ''nope'' store3) STORAGE_KEY = Some [tabB, tabA, tabC] \<and>
   snd (saveTabs 300 rnd0 [candA] store3) STORAGE_KEY = Some [tabB, tabA, tabC] \<and>
   Map.empty STORAGE_KEY = (None :: SavedTab list option) \<and>
   snd (deleteTab ''nope'' Map.empty) STORAGE_KEY = Some [] \<and>
   stored (run [Save 200 rnd0 [candD], Save 100 rnd0 [candA]] Map.empty) =
     [\<lparr> url = ''https://a.com'', title = ''A2'', favIconUrl = None,
         id' = ''100-0-x7k2m9q'', savedAt = 100 \<rparr>,
      \<lparr> url = ''https://d.com'', title = ''D'', favIconUrl = None,
         id' = ''200-0-x7k2m9q'', savedAt = 200 \<rparr>] \<and>
   stored (run [Save 200 rnd0 [candD], Save 100 rnd0 [candA], Delete ''nope''] Map.empty) =
     [\<lparr> url = ''https://d.com'', title = ''D'', favIconUrl = None,
         id' = ''200-0-x7k2m9q'', savedAt = 200 \<rparr>,
      \<lparr> url = ''https://a.com'', title = ''A2'', favIconUrl = None,
         id' = ''100-0-x7k2m9q'', savedAt = 100 \<rparr>]"
proof -
  have a: "''nope'' \<notin> id' ` set (stored store3)"
    by (simp add: stored_def ex_defs)
  have b: "list_all (\<lambda>c. url c \<in> url ` set (stored store3)) [candA]"
    by (simp add: stored_def ex_defs)
  have g: "getSavedTabs store3 = [tabB, tabA, tabC]"
    by (simp add: getSavedTabs_def sort_by_def ex_defs)
  have s: "stored store3 = [tabA, tabB, tabC]"
    by (simp add: stored_def ex_defs)
  have e: "getSavedTabs Map.empty = []" "''nope'' \<notin> id' ` set (stored Map.empty)"
    by (simp_all add: getSavedTabs_def sort_by_def stored_def)
  have "snd (deleteTab ''nope'' store3) STORAGE_KEY = Some (getSavedTabs store3)"
    using a noop_call_rewrites_sorted [of 300 rnd0 "[candA]" store3 "''nope''"] by blast
  moreover have "snd (saveTabs 300 rnd0 [candA] store3) STORAGE_KEY = Some (getSavedTabs store3)"
    using b noop_call_rewrites_sorted [of 300 rnd0 "[candA]" store3 "''nope''"] by blast
  moreover have "snd (deleteTab ''nope'' Map.empty) STORAGE_KEY = Some (getSavedTabs Map.empty)"
    using e noop_call_rewrites_sorted [of 300 rnd0 "[]" Map.empty "''nope''"] by blast
  moreover have "stored (run [Save 200 rnd0 [candD], Save 100 rnd0 [candA]] Map.empty) =
     [\<lparr> url = ''https://a.com'', title = ''A2'', favIconUrl = None,
         id' = ''100-0-x7k2m9q'', savedAt = 100 \<rparr>,
      \<lparr> url = ''https://d.com'', title = ''D'', favIconUrl = None,
         id' = ''200-0-x7k2m9q'', savedAt = 200 \<rparr>]"
    by (simp add: run_defs ex_defs)
  moreover have
    "stored (run [Save 200 rnd0 [candD], Save 100 rnd0 [candA], Delete ''nope''] Map.empty) =
     [\<lparr> url = ''https://d.com'', title = ''D'', favIconUrl = None,
         id' = ''200-0-x7k2m9q'', savedAt = 200 \<rparr>,
      \<lparr> url = ''https://a.com'', title = ''A2'', favIconUrl = None,
         id' = ''100-0-x7k2m9q'', savedAt = 100 \<rparr>]"
    by (simp add: run_defs ex_defs)
  ultimately show ?thesis
    using a b g s e by simp
qed

end
